theory Spec2Isabelle
  imports Main "HOL-Library.Sublist" "HOL-Library.Signed_Division"
begin

section \<open>Go runtime: panics, slices, strings\<close>

text \<open>
  A Go panic ends the call that raised it; every function that can panic returns
  \<open>panic + 'a\<close>, with \<open>Inl\<close> for the panic.
\<close>

datatype panic =
    IndexOutOfRange
  | SliceBoundsOutOfRange
  | MakeLenOutOfRange
  | IntegerDivideByZero

definition bind_panic :: "panic + 'a \<Rightarrow> ('a \<Rightarrow> panic + 'b) \<Rightarrow> panic + 'b" where
  "bind_panic r f = (case r of Inl p \<Rightarrow> Inl p | Inr x \<Rightarrow> f x)"

text \<open>
  The builtin \<open>copy(dst, src)\<close> overwrites the first \<open>min(len(dst), len(src))\<close>
  elements of \<open>dst\<close> and leaves the rest of \<open>dst\<close> as it was.
\<close>

definition go_copy :: "'a list \<Rightarrow> 'a list \<Rightarrow> 'a list" where
  "go_copy dst src = take (length dst) src @ drop (length src) dst"

text \<open>
  Strings are byte lists (UTF-8 for text). \<open>strings.ToUpper\<close> and
  \<open>strings.ToLower\<close> map every Unicode letter, by tables of the Go standard library;
  they are parameters of the model (see \<open>stdlib\<close> below). On a string of ASCII bytes
  they change the 26 letters only, byte by byte: \<open>ascii_ToUpper\<close> and
  \<open>ascii_ToLower\<close>.
\<close>

definition is_ascii :: "string \<Rightarrow> bool" where
  "is_ascii s = list_all (\<lambda>c. (of_char c :: nat) < 128) s"

definition upper_byte :: "char \<Rightarrow> char" where
  "upper_byte c =
     (let n = (of_char c :: nat) in if 97 \<le> n \<and> n \<le> 122 then char_of (n - 32) else c)"

definition lower_byte :: "char \<Rightarrow> char" where
  "lower_byte c =
     (let n = (of_char c :: nat) in if 65 \<le> n \<and> n \<le> 90 then char_of (n + 32) else c)"

definition ascii_ToUpper :: "string \<Rightarrow> string" where
  "ascii_ToUpper s = map upper_byte s"

definition ascii_ToLower :: "string \<Rightarrow> string" where
  "ascii_ToLower s = map lower_byte s"

text \<open>\<open>strings.Contains(s, substr)\<close>: \<open>substr\<close> occurs in \<open>s\<close> as a contiguous run.\<close>

fun Contains :: "string \<Rightarrow> string \<Rightarrow> bool" where
  "Contains [] substr = (substr = [])"
| "Contains (c # cs) substr = (prefix substr (c # cs) \<or> Contains cs substr)"

definition HasPrefix :: "string \<Rightarrow> string \<Rightarrow> bool" where
  "HasPrefix s p = prefix p s"

text \<open>
  \<open>strings.TrimSpace\<close> removes the leading and trailing runes of \<open>unicode.IsSpace\<close>:
  U+0009 to U+000D, U+0020, U+0085, U+00A0, U+1680, U+2000 to U+200A, U+2028, U+2029,
  U+202F, U+205F and U+3000, here in their UTF-8 encodings of one, two and three bytes.
\<close>

definition is_space1 :: "char \<Rightarrow> bool" where
  "is_space1 a = (a \<in> set [CHR 0x09, CHR 0x0A, CHR 0x0B, CHR 0x0C, CHR 0x0D, CHR 0x20])"

definition is_space2 :: "char \<Rightarrow> char \<Rightarrow> bool" where
  "is_space2 a b = (a = CHR 0xC2 \<and> (b = CHR 0x85 \<or> b = CHR 0xA0))"

definition is_space3 :: "char \<Rightarrow> char \<Rightarrow> char \<Rightarrow> bool" where
  "is_space3 a b c =
     ((a = CHR 0xE1 \<and> b = CHR 0x9A \<and> c = CHR 0x80) \<or>
      (a = CHR 0xE2 \<and> b = CHR 0x80 \<and>
         ((0x80 \<le> (of_char c :: nat) \<and> (of_char c :: nat) \<le> 0x8A) \<or>
          c = CHR 0xA8 \<or> c = CHR 0xA9 \<or> c = CHR 0xAF)) \<or>
      (a = CHR 0xE2 \<and> b = CHR 0x81 \<and> c = CHR 0x9F) \<or>
      (a = CHR 0xE3 \<and> b = CHR 0x80 \<and> c = CHR 0x80))"

fun TrimLeftSpace :: "string \<Rightarrow> string" where
  "TrimLeftSpace (a # b # c # rest) =
     (if is_space1 a then TrimLeftSpace (b # c # rest)
      else if is_space2 a b then TrimLeftSpace (c # rest)
      else if is_space3 a b c then TrimLeftSpace rest
      else a # b # c # rest)"
| "TrimLeftSpace [a, b] =
     (if is_space1 a then TrimLeftSpace [b] else if is_space2 a b then [] else [a, b])"
| "TrimLeftSpace [a] = (if is_space1 a then [] else [a])"
| "TrimLeftSpace [] = []"

text \<open>The same from the end, on the reversed string: the bytes of a rune come last first.\<close>

fun TrimLeftSpace_rev :: "string \<Rightarrow> string" where
  "TrimLeftSpace_rev (c # b # a # rest) =
     (if is_space1 c then TrimLeftSpace_rev (b # a # rest)
      else if is_space2 b c then TrimLeftSpace_rev (a # rest)
      else if is_space3 a b c then TrimLeftSpace_rev rest
      else c # b # a # rest)"
| "TrimLeftSpace_rev [c, b] =
     (if is_space1 c then TrimLeftSpace_rev [b] else if is_space2 b c then [] else [c, b])"
| "TrimLeftSpace_rev [c] = (if is_space1 c then [] else [c])"
| "TrimLeftSpace_rev [] = []"

definition TrimSpace :: "string \<Rightarrow> string" where
  "TrimSpace s = rev (TrimLeftSpace_rev (rev (TrimLeftSpace s)))"

section \<open>internal/log/entry.go: log entries\<close>

text \<open>\<open>LogLevel\<close> is a string type; the four constants are its named values.\<close>

type_synonym LogLevel = string

definition LogLevelDebug :: LogLevel where "LogLevelDebug = ''DEBUG''"
definition LogLevelInfo :: LogLevel where "LogLevelInfo = ''INFO''"
definition LogLevelWarn :: LogLevel where "LogLevelWarn = ''WARN''"
definition LogLevelError :: LogLevel where "LogLevelError = ''ERROR''"

text \<open>An instant of \<open>time.Time\<close>, as nanoseconds since the Unix epoch.\<close>

type_synonym Time = int

text \<open>The zero \<open>time.Time\<close> is January 1, year 1, 00:00:00 UTC.\<close>

definition zeroTime :: Time where
  "zeroTime = - 62135596800 * 1000000000"

typedecl float64

text \<open>
  The dynamic values of \<open>interface{}\<close> that occur here: what \<open>encoding/json\<close>
  decodes into, and the \<open>time.Time\<close> values the parser stores.
\<close>

datatype val =
    VNil
  | VBool bool
  | VNumber float64
  | VString string
  | VArray "val list"
  | VObject "(string \<times> val) list"
  | VTime Time

text \<open>A \<open>map[string]interface{}\<close>; the nil map reads as the empty one.\<close>

type_synonym fields = "string \<rightharpoonup> val"

record LogEntry =
  Timestamp :: Time
  Source :: string
  Level :: LogLevel
  Content :: string
  Raw :: string
  Metadata :: fields

text \<open>The zero value of the struct, which \<open>make([]LogEntry, n)\<close> fills a slice with.\<close>

definition zeroLogEntry :: LogEntry where
  "zeroLogEntry = \<lparr>Timestamp = zeroTime, Source = [], Level = [], Content = [], Raw = [],
     Metadata = Map.empty\<rparr>"

section \<open>The Go standard library\<close>

text \<open>
  What the program calls in the Go standard library and the model does not define is
  a parameter of the model: the clock, \<open>json.Unmarshal\<close> into a
  \<open>map[string]interface{}\<close> (\<open>None\<close> for an error), \<open>time.Parse\<close> of a layout and a
  value (\<open>None\<close> for an error), \<open>FindString\<close> of the parser's timestamp pattern (the
  empty string for no match), and the Unicode case mappings \<open>strings.ToUpper\<close> and
  \<open>strings.ToLower\<close>.
\<close>

record stdlib =
  time_Now :: Time
  json_Unmarshal :: "string \<Rightarrow> fields option"
  time_Parse :: "string \<Rightarrow> string \<Rightarrow> Time option"
  timestampPattern_FindString :: "string \<Rightarrow> string"
  strings_ToUpper :: "string \<Rightarrow> string"
  strings_ToLower :: "string \<Rightarrow> string"

text \<open>
  What Go's case mappings do on a string of ASCII bytes (their ASCII fast path): only
  the letters change.
\<close>

definition ascii_case_mapping :: "stdlib \<Rightarrow> bool" where
  "ascii_case_mapping lib =
     (\<forall>s. is_ascii s \<longrightarrow>
        strings_ToUpper lib s = ascii_ToUpper s \<and> strings_ToLower lib s = ascii_ToLower s)"

section \<open>internal/log/buffer.go: the ring buffer\<close>

record Buffer =
  entries :: "LogEntry list"
  bsize :: int
  bindex :: int
  bcount :: int

definition NewBuffer :: "int \<Rightarrow> panic + Buffer" where
  "NewBuffer sz =
     (if sz < 0 then Inl MakeLenOutOfRange
      else Inr \<lparr>entries = replicate (nat sz) zeroLogEntry, bsize = sz, bindex = 0, bcount = 0\<rparr>)"

text \<open>
  \<open>Add\<close>: the store \<open>b.entries[b.index] = entry\<close> panics outside the slice, and
  \<open>%\<close> (the remainder of the truncated division) panics on a zero divisor.
\<close>

definition Add :: "Buffer \<Rightarrow> LogEntry \<Rightarrow> panic + Buffer" where
  "Add b entry =
     (if bindex b < 0 \<or> int (length (entries b)) \<le> bindex b then Inl IndexOutOfRange
      else if bsize b = 0 then Inl IntegerDivideByZero
      else Inr (b\<lparr>entries := (entries b)[nat (bindex b) := entry],
                  bindex := (bindex b + 1) smod bsize b,
                  bcount := (if bcount b < bsize b then bcount b + 1 else bcount b)\<rparr>))"

text \<open>
  \<open>GetAll\<close>: \<open>nil\<close> for an empty buffer, else a fresh slice of \<open>count\<close> entries
  filled by \<open>copy\<close>: the prefix \<open>entries[:count]\<close> while the buffer is not full, and
  \<open>entries[index:]\<close> followed by \<open>entries[:index]\<close> once it is. Every slice
  expression panics when its bounds are outside the slice.
\<close>

definition GetAll :: "Buffer \<Rightarrow> panic + LogEntry list" where
  "GetAll b =
     (if bcount b = 0 then Inr []
      else if bcount b < 0 then Inl MakeLenOutOfRange
      else
        let result = replicate (nat (bcount b)) zeroLogEntry in
        if bcount b < bsize b then
          (if int (length (entries b)) < bcount b then Inl SliceBoundsOutOfRange
           else Inr (go_copy result (take (nat (bcount b)) (entries b))))
        else
          let startIdx = bindex b in
          if startIdx < 0 \<or> int (length (entries b)) < startIdx then Inl SliceBoundsOutOfRange
          else
            let result1 = go_copy result (drop (nat startIdx) (entries b)) in
            if bsize b - startIdx < 0 \<or> int (length result1) < bsize b - startIdx
            then Inl SliceBoundsOutOfRange
            else
              let k = nat (bsize b - startIdx) in
              Inr (take k result1 @ go_copy (drop k result1) (take (nat startIdx) (entries b))))"

definition GetRecent :: "Buffer \<Rightarrow> int \<Rightarrow> panic + LogEntry list" where
  "GetRecent b n =
     bind_panic (GetAll b) (\<lambda>all.
       if int (length all) \<le> n then Inr all
       else if n < 0 then Inl SliceBoundsOutOfRange
       else Inr (drop (length all - nat n) all))"

definition Clear :: "Buffer \<Rightarrow> Buffer" where
  "Clear b = b\<lparr>bcount := 0, bindex := 0\<rparr>"

definition Count :: "Buffer \<Rightarrow> int" where
  "Count b = bcount b"

text \<open>The \<open>levelOrder\<close> map of \<open>Filter\<close>; a key that is not in a Go map reads as 0.\<close>

definition levelOrder :: "LogLevel \<Rightarrow> int" where
  "levelOrder l =
     (if l = LogLevelDebug then 0
      else if l = LogLevelInfo then 1
      else if l = LogLevelWarn then 2
      else if l = LogLevelError then 3
      else 0)"

definition Filter :: "Buffer \<Rightarrow> LogLevel \<Rightarrow> panic + LogEntry list" where
  "Filter b minLevel =
     bind_panic (GetAll b) (\<lambda>all.
       let minLevelOrder = levelOrder minLevel in
       Inr (filter (\<lambda>entry. minLevelOrder \<le> levelOrder (Level entry)) all))"


text \<open>Adding a sequence of entries one after the other, stopping at a panic.\<close>

fun add_all :: "Buffer \<Rightarrow> LogEntry list \<Rightarrow> panic + Buffer" where
  "add_all b [] = Inr b"
| "add_all b (e # es) = bind_panic (Add b e) (\<lambda>b'. add_all b' es)"

section \<open>internal/log/parser.go: the line classifier\<close>

definition ParseLevel :: "stdlib \<Rightarrow> string \<Rightarrow> LogLevel" where
  "ParseLevel lib line =
     (let upperLine = strings_ToUpper lib line in
      if Contains upperLine ''ERROR'' \<or> Contains upperLine ''ERR'' then LogLevelError
      else if Contains upperLine ''WARN'' \<or> Contains upperLine ''WARNING'' then LogLevelWarn
      else if Contains upperLine ''INFO'' \<or> Contains upperLine ''INFORMATION'' then LogLevelInfo
      else if Contains upperLine ''DEBUG'' \<or> Contains upperLine ''DBG'' then LogLevelDebug
      else LogLevelInfo)"

definition RFC3339 :: string where
  "RFC3339 = ''2006-01-02T15:04:05Z07:00''"

definition RFC3339Nano :: string where
  "RFC3339Nano = ''2006-01-02T15:04:05.999999999Z07:00''"

text \<open>The loop \<open>for _, field := range names { if val, ok := data[field]; ok { ...; break } }\<close>
  stops at the first name that is a key of \<open>data\<close>.\<close>

fun first_field :: "fields \<Rightarrow> string list \<Rightarrow> val option" where
  "first_field data [] = None"
| "first_field data (field # rest) =
     (case data field of Some v \<Rightarrow> Some v | None \<Rightarrow> first_field data rest)"

text \<open>The loop over the layouts stops at the first one that parses.\<close>

fun try_formats :: "(string \<Rightarrow> string \<Rightarrow> Time option) \<Rightarrow> string list \<Rightarrow> string \<Rightarrow> Time option" where
  "try_formats parse [] timeStr = None"
| "try_formats parse (format # rest) timeStr =
     (case parse format timeStr of Some ts \<Rightarrow> Some ts | None \<Rightarrow> try_formats parse rest timeStr)"

definition timestampFields :: "string list" where
  "timestampFields = [''timestamp'', ''ts'', ''time'', ''@timestamp'', ''datetime'']"

definition formats :: "string list" where
  "formats = [RFC3339, RFC3339Nano, ''2006-01-02 15:04:05'', ''2006-01-02T15:04:05'',
     ''2006-01-02 15:04:05.000'']"

definition messageFields :: "string list" where
  "messageFields = [''message'', ''msg'', ''text'', ''content'']"

definition levelFields :: "string list" where
  "levelFields = [''level'', ''severity'', ''priority'']"

text \<open>
  The last loop copies every key of \<open>data\<close> that is not yet a key of \<open>result\<close>:
  the map \<open>data ++ result\<close>, in which \<open>result\<close> wins.
\<close>

definition normalizeJSONFields :: "stdlib \<Rightarrow> fields \<Rightarrow> fields" where
  "normalizeJSONFields lib data =
     (let result0 = Map.empty;
          result1 =
            (case first_field data timestampFields of
               Some (VString timeStr) \<Rightarrow>
                 (case try_formats (time_Parse lib) formats timeStr of
                    Some ts \<Rightarrow> result0(''timestamp'' \<mapsto> VTime ts)
                  | None \<Rightarrow> result0)
             | _ \<Rightarrow> result0);
          result2 =
            (case first_field data messageFields of
               Some v \<Rightarrow> result1(''message'' \<mapsto> v)
             | None \<Rightarrow> result1);
          result3 =
            (case first_field data levelFields of
               Some v \<Rightarrow> result2(''level'' \<mapsto> v)
             | None \<Rightarrow> result2)
      in data ++ result3)"

text \<open>\<open>ParseStructured\<close> returns a map made by \<open>make\<close> on every path: \<open>Some\<close> always.\<close>

definition ParseStructured :: "stdlib \<Rightarrow> string \<Rightarrow> fields option" where
  "ParseStructured lib line =
     (case (if HasPrefix (TrimSpace line) ''{'' then json_Unmarshal lib line else None) of
        Some jsonData \<Rightarrow> Some (normalizeJSONFields lib jsonData)
      | None \<Rightarrow>
          (let result = Map.empty;
               match = timestampPattern_FindString lib line
           in if match \<noteq> [] then
                (case time_Parse lib ''2006-01-02 15:04:05'' match of
                   Some ts \<Rightarrow> Some (result(''timestamp'' \<mapsto> VTime ts))
                 | None \<Rightarrow>
                     (case time_Parse lib ''2006-01-02T15:04:05'' match of
                        Some ts \<Rightarrow> Some (result(''timestamp'' \<mapsto> VTime ts))
                      | None \<Rightarrow> Some result))
              else Some result))"

definition NewLogEntry :: "stdlib \<Rightarrow> string \<Rightarrow> string \<Rightarrow> LogEntry" where
  "NewLogEntry lib source rawLine =
     (let entry = \<lparr>Timestamp = time_Now lib, Source = source, Level = ParseLevel lib rawLine,
                    Content = rawLine, Raw = rawLine, Metadata = Map.empty\<rparr>
      in case ParseStructured lib rawLine of
           None \<Rightarrow> entry
         | Some structured \<Rightarrow>
             (let entry1 = (case structured ''timestamp'' of
                              Some (VTime timestamp) \<Rightarrow> entry\<lparr>Timestamp := timestamp\<rparr>
                            | _ \<Rightarrow> entry);
                  entry2 = (case structured ''message'' of
                              Some (VString msg) \<Rightarrow> entry1\<lparr>Content := msg\<rparr>
                            | _ \<Rightarrow> entry1)
              in entry2\<lparr>Metadata :=
                   Metadata entry2 ++
                     (structured |` (- {''timestamp'', ''message'', ''level''}))\<rparr>))"

section \<open>internal/ipc: messages and the server's queue\<close>

text \<open>
  \<open>ipc.LogEntry\<close> has the fields of \<open>log.LogEntry\<close>, with the same names and types;
  the record \<open>LogEntry\<close> stands for both.
\<close>

type_synonym MessageType = string

definition MessageTypeLog :: MessageType where "MessageTypeLog = ''log''"
definition MessageTypeSourceInit :: MessageType where "MessageTypeSourceInit = ''source_init''"
definition MessageTypeSourceExit :: MessageType where "MessageTypeSourceExit = ''source_exit''"

record SourceInfo =
  Name :: string
  Type :: string

record IPCMessage =
  msgType :: MessageType
  msgLogEntry :: "LogEntry option"
  msgSourceInfo :: "SourceInfo option"
  msgError :: string

text \<open>
  A buffered channel: the values sent and not yet received, oldest first, and the
  capacity given to \<open>make\<close>.
\<close>

record 'a chan =
  chan_buf :: "'a list"
  chan_cap :: nat

definition make_chan :: "nat \<Rightarrow> 'a chan" where
  "make_chan n = \<lparr>chan_buf = [], chan_cap = n\<rparr>"

text \<open>
  \<open>select { case ch <- v: default: }\<close>: the send happens when the buffer has room,
  and the default branch runs when it is full.
\<close>

definition try_send :: "'a chan \<Rightarrow> 'a \<Rightarrow> 'a chan" where
  "try_send ch v =
     (if length (chan_buf ch) < chan_cap ch then ch\<lparr>chan_buf := chan_buf ch @ [v]\<rparr> else ch)"

text \<open>A receive takes the oldest value (\<open>None\<close> where the receiver would block).\<close>

definition receive :: "'a chan \<Rightarrow> ('a \<times> 'a chan) option" where
  "receive ch =
     (case chan_buf ch of [] \<Rightarrow> None | v # rest \<Rightarrow> Some (v, ch\<lparr>chan_buf := rest\<rparr>))"

record Server =
  logChan :: "LogEntry chan"

text \<open>\<open>NewServer\<close>, given whether \<open>os.MkdirAll\<close> and \<open>net.Listen\<close> succeed.\<close>

definition NewServer :: "bool \<Rightarrow> bool \<Rightarrow> string + Server" where
  "NewServer mkdir_ok listen_ok =
     (if \<not> mkdir_ok then Inl ''failed to create socket directory''
      else if \<not> listen_ok then Inl ''failed to create unix socket''
      else Inr \<lparr>logChan = make_chan 1000\<rparr>)"

text \<open>The body of the \<open>switch msg.Type\<close> in \<open>handleClient\<close>, for one decoded message.\<close>

definition handleMessage :: "Server \<Rightarrow> IPCMessage \<Rightarrow> Server" where
  "handleMessage s msg =
     (if msgType msg = MessageTypeLog then
        (case msgLogEntry msg of
           Some entry \<Rightarrow> s\<lparr>logChan := try_send (logChan s) entry\<rparr>
         | None \<Rightarrow> s)
      else if msgType msg = MessageTypeSourceInit then s
      else if msgType msg = MessageTypeSourceExit then s
      else s)"

text \<open>
  The scanner loop of \<open>handleClient\<close> over the lines of one connection; \<open>unmarshal\<close>
  is \<open>json.Unmarshal\<close> into an \<open>IPCMessage\<close>, and a line it rejects is skipped.
\<close>

fun handleClient :: "(string \<Rightarrow> IPCMessage option) \<Rightarrow> Server \<Rightarrow> string list \<Rightarrow> Server" where
  "handleClient unmarshal s [] = s"
| "handleClient unmarshal s (line # rest) =
     (case unmarshal line of
        None \<Rightarrow> handleClient unmarshal s rest
      | Some msg \<Rightarrow> handleClient unmarshal (handleMessage s msg) rest)"

section \<open>internal/ui/pane.go: panes\<close>

record Pane =
  name :: string
  buffer :: Buffer
  scrollPos :: int
  pwidth :: int
  pheight :: int
  focused :: bool
  lastSearch :: string

definition NewPane :: "string \<Rightarrow> int \<Rightarrow> panic + Pane" where
  "NewPane nm bufferSize =
     bind_panic (NewBuffer bufferSize) (\<lambda>buf.
       Inr \<lparr>name = nm, buffer = buf, scrollPos = 0, pwidth = 0, pheight = 0,
            focused = False, lastSearch = []\<rparr>)"

definition AddEntry :: "Pane \<Rightarrow> LogEntry \<Rightarrow> panic + Pane" where
  "AddEntry p entry = bind_panic (Add (buffer p) entry) (\<lambda>buf. Inr (p\<lparr>buffer := buf\<rparr>))"

definition ScrollDown :: "Pane \<Rightarrow> panic + Pane" where
  "ScrollDown p =
     bind_panic (GetAll (buffer p)) (\<lambda>es.
       let maxScroll0 = int (length es) - (pheight p - 2);
           maxScroll = (if maxScroll0 < 0 then 0 else maxScroll0)
       in if scrollPos p < maxScroll then Inr (p\<lparr>scrollPos := scrollPos p + 1\<rparr>) else Inr p)"

definition ScrollUp :: "Pane \<Rightarrow> Pane" where
  "ScrollUp p = (if 0 < scrollPos p then p\<lparr>scrollPos := scrollPos p - 1\<rparr> else p)"

definition Pane_Clear :: "Pane \<Rightarrow> Pane" where
  "Pane_Clear p = p\<lparr>buffer := Clear (buffer p), scrollPos := 0\<rparr>"

section \<open>internal/ui/app.go: the dashboard\<close>

datatype LayoutMode = LayoutHorizontal | LayoutVertical | LayoutAutoGrid

datatype ViewMode = ViewMultiPane | ViewZoomed

datatype SearchMode = SearchNone | SearchLocal | SearchGlobal

record SearchResult =
  PaneName :: string
  Entry :: LogEntry
  Index :: int

text \<open>
  The panes are held by pointer in \<open>map[string]*Pane\<close>, each under its own name only;
  the model keeps the pane itself in the map and writes a changed pane back.
\<close>

record App =
  panes :: "string \<rightharpoonup> Pane"
  paneOrder :: "string list"
  layout :: LayoutMode
  viewMode :: ViewMode
  focusedPane :: int
  zoomedPane :: int
  searchMode :: SearchMode
  searchQuery :: string
  searchResults :: "SearchResult list"
  filterLevel :: LogLevel
  followMode :: bool
  paused :: bool
  width :: int
  height :: int

definition NewApp :: App where
  "NewApp = \<lparr>panes = Map.empty, paneOrder = [], layout = LayoutVertical,
     viewMode = ViewMultiPane, focusedPane = 0, zoomedPane = 0, searchMode = SearchNone,
     searchQuery = [], searchResults = [], filterLevel = LogLevelDebug, followMode = True,
     paused = False, width = 0, height = 0\<rparr>"

text \<open>\<open>updateLayout\<close> has an empty body.\<close>

definition updateLayout :: "App \<Rightarrow> App" where
  "updateLayout a = a"

definition handleLogEntry :: "App \<Rightarrow> LogEntry \<Rightarrow> panic + App" where
  "handleLogEntry a entry =
     bind_panic
       (case panes a (Source entry) of
          Some pane \<Rightarrow> Inr (pane, a)
        | None \<Rightarrow>
            bind_panic (NewPane (Source entry) 1000) (\<lambda>pane.
              Inr (pane, updateLayout
                (a\<lparr>panes := (panes a)(Source entry \<mapsto> pane),
                   paneOrder := paneOrder a @ [Source entry]\<rparr>))))
       (\<lambda>(pane, a1).
          let logEntry = \<lparr>Timestamp = Timestamp entry, Source = Source entry,
                           Level = Level entry, Content = Content entry, Raw = Raw entry,
                           Metadata = Metadata entry\<rparr>
          in if \<not> paused a1 then
               bind_panic (AddEntry pane logEntry) (\<lambda>pane'.
                 Inr (a1\<lparr>panes := (panes a1)(Source entry \<mapsto> pane')\<rparr>))
             else Inr a1)"

text \<open>The consumer: the entries of the queue handled one after the other.\<close>

fun handleLogEntries :: "App \<Rightarrow> LogEntry list \<Rightarrow> panic + App" where
  "handleLogEntries a [] = Inr a"
| "handleLogEntries a (e # es) = bind_panic (handleLogEntry a e) (\<lambda>a'. handleLogEntries a' es)"

definition cycleLayout :: "App \<Rightarrow> App" where
  "cycleLayout a =
     updateLayout
       (case layout a of
          LayoutHorizontal \<Rightarrow> a\<lparr>layout := LayoutVertical\<rparr>
        | LayoutVertical \<Rightarrow> a\<lparr>layout := LayoutAutoGrid\<rparr>
        | LayoutAutoGrid \<Rightarrow> a\<lparr>layout := LayoutHorizontal\<rparr>)"

definition nextPane :: "App \<Rightarrow> App" where
  "nextPane a =
     (if 0 < length (paneOrder a)
      then a\<lparr>focusedPane := (focusedPane a + 1) smod int (length (paneOrder a))\<rparr>
      else a)"

definition prevPane :: "App \<Rightarrow> App" where
  "prevPane a =
     (if 0 < length (paneOrder a)
      then a\<lparr>focusedPane :=
               (focusedPane a - 1 + int (length (paneOrder a))) smod int (length (paneOrder a))\<rparr>
      else a)"

text \<open>
  \<open>scrollDown\<close>, \<open>scrollUp\<close> and \<open>clearFocusedPane\<close> share one shape: with at least one
  pane, read \<open>paneOrder[focusedPane]\<close> (a panic outside the slice) and act on the pane
  of that name when the map has it.
\<close>

definition with_focused_pane :: "App \<Rightarrow> (Pane \<Rightarrow> panic + Pane) \<Rightarrow> panic + App" where
  "with_focused_pane a f =
     (if 0 < length (paneOrder a) then
        (if focusedPane a < 0 \<or> int (length (paneOrder a)) \<le> focusedPane a
         then Inl IndexOutOfRange
         else
           let paneName = paneOrder a ! nat (focusedPane a) in
           case panes a paneName of
             Some pane \<Rightarrow> bind_panic (f pane) (\<lambda>pane'. Inr (a\<lparr>panes := (panes a)(paneName \<mapsto> pane')\<rparr>))
           | None \<Rightarrow> Inr a)
      else Inr a)"

definition scrollDown :: "App \<Rightarrow> panic + App" where
  "scrollDown a = with_focused_pane a ScrollDown"

definition scrollUp :: "App \<Rightarrow> panic + App" where
  "scrollUp a = with_focused_pane a (\<lambda>p. Inr (ScrollUp p))"

definition clearFocusedPane :: "App \<Rightarrow> panic + App" where
  "clearFocusedPane a = with_focused_pane a (\<lambda>p. Inr (Pane_Clear p))"

text \<open>
  \<open>performSearch\<close> empties the results; the bodies of its two branches are empty, so
  all that is left of them is the read of \<open>paneOrder[focusedPane]\<close> in the local one.
\<close>

definition performSearch :: "App \<Rightarrow> panic + App" where
  "performSearch a =
     (let a1 = a\<lparr>searchResults := []\<rparr>
      in if searchMode a1 = SearchLocal \<and> 0 < length (paneOrder a1) then
           (if focusedPane a1 < 0 \<or> int (length (paneOrder a1)) \<le> focusedPane a1
            then Inl IndexOutOfRange else Inr a1)
         else Inr a1)"

text \<open>A key press is the text of \<open>msg.String()\<close>; the command returned is \<open>nil\<close> or
  \<open>tea.Quit\<close>.\<close>

datatype Cmd = CmdNil | CmdQuit

definition handleSearchInput :: "App \<Rightarrow> string \<Rightarrow> panic + App \<times> Cmd" where
  "handleSearchInput a key =
     (if key = ''enter'' then
        bind_panic (performSearch a) (\<lambda>a1. Inr (a1\<lparr>searchMode := SearchNone\<rparr>, CmdNil))
      else if key = ''esc'' then Inr (a\<lparr>searchMode := SearchNone, searchQuery := []\<rparr>, CmdNil)
      else if key = ''backspace'' then
        (if 0 < length (searchQuery a)
         then Inr (a\<lparr>searchQuery := take (length (searchQuery a) - 1) (searchQuery a)\<rparr>, CmdNil)
         else Inr (a, CmdNil))
      else if length key = 1 then Inr (a\<lparr>searchQuery := searchQuery a @ key\<rparr>, CmdNil)
      else Inr (a, CmdNil))"

text \<open>
  The cases of the \<open>switch\<close> in source order; the second \<open>case "l"\<close> can never be
  reached, since the first one takes the key. The digit keys are the one-byte strings
  \<open>"1"\<close> to \<open>"9"\<close>.
\<close>

definition handleKeyPress :: "App \<Rightarrow> string \<Rightarrow> panic + App \<times> Cmd" where
  "handleKeyPress a key =
     (if key = ''q'' \<or> key = ''ctrl+c'' then Inr (a, CmdQuit)
      else if searchMode a \<noteq> SearchNone then handleSearchInput a key
      else
        bind_panic
          (if key = ''l'' then Inr (cycleLayout a)
           else if key = ''z'' then
             Inr (updateLayout
               (if viewMode a = ViewMultiPane \<and> 0 < length (paneOrder a)
                then a\<lparr>viewMode := ViewZoomed, zoomedPane := focusedPane a\<rparr>
                else if viewMode a = ViewZoomed then a\<lparr>viewMode := ViewMultiPane\<rparr>
                else a))
           else if key = ''tab'' then Inr (nextPane a)
           else if key = ''shift+tab'' then Inr (prevPane a)
           else if key = ''h'' then
             Inr (if layout a = LayoutVertical then prevPane a else a)
           else if key = ''j'' then
             (if layout a = LayoutHorizontal then Inr (nextPane a) else scrollDown a)
           else if key = ''k'' then
             (if layout a = LayoutHorizontal then Inr (prevPane a) else scrollUp a)
           else if key \<in> set (map (\<lambda>c. [c]) ''123456789'') then
             (let paneNum = int (of_char (hd key)) - int (of_char (CHR ''1''))
              in if paneNum < int (length (paneOrder a)) then
                   Inr (updateLayout
                     ((if viewMode a = ViewZoomed then a\<lparr>zoomedPane := paneNum\<rparr> else a)
                        \<lparr>focusedPane := paneNum\<rparr>))
                 else Inr a)
           else if key = ''/'' then Inr (a\<lparr>searchMode := SearchLocal, searchQuery := []\<rparr>)
           else if key = ''ctrl+/'' \<or> key = ''?'' then
             Inr (a\<lparr>searchMode := SearchGlobal, searchQuery := []\<rparr>)
           else if key = ''e'' then Inr (a\<lparr>filterLevel := LogLevelError\<rparr>)
           else if key = ''w'' then Inr (a\<lparr>filterLevel := LogLevelWarn\<rparr>)
           else if key = ''i'' then Inr (a\<lparr>filterLevel := LogLevelInfo\<rparr>)
           else if key = ''a'' then Inr (a\<lparr>filterLevel := LogLevelDebug\<rparr>)
           else if key = '' '' then Inr (a\<lparr>paused := \<not> paused a\<rparr>)
           else if key = ''f'' then Inr (a\<lparr>followMode := \<not> followMode a\<rparr>)
           else if key = ''c'' then clearFocusedPane a
           else Inr a)
          (\<lambda>a'. Inr (a', CmdNil)))"

section \<open>Invariants and abstractions used by the proofs\<close>

text \<open>
  The states of a buffer that \<open>NewBuffer\<close> with a positive size and \<open>Add\<close> can
  reach: the backing slice has \<open>size\<close> elements, the cursor is inside it, and until
  the buffer is full the cursor equals the count.
\<close>

definition buffer_inv :: "Buffer \<Rightarrow> bool" where
  "buffer_inv b =
     (0 < bsize b \<and> int (length (entries b)) = bsize b \<and>
      0 \<le> bindex b \<and> bindex b < bsize b \<and>
      0 \<le> bcount b \<and> bcount b \<le> bsize b \<and>
      (bcount b < bsize b \<longrightarrow> bindex b = bcount b))"

text \<open>The entries a buffer holds, oldest first.\<close>

definition contents :: "Buffer \<Rightarrow> LogEntry list" where
  "contents b =
     (if bcount b < bsize b then take (nat (bcount b)) (entries b)
      else drop (nat (bindex b)) (entries b) @ take (nat (bindex b)) (entries b))"

text \<open>
  Case-insensitive matching as the specification words it: two bytes are the same
  letter when they are equal or are the upper-case and lower-case form of one ASCII
  letter, and \<open>occurs_ci term text\<close> holds when some contiguous run of \<open>text\<close> equals
  \<open>term\<close> letter by letter in that sense.
\<close>

definition same_letter :: "char \<Rightarrow> char \<Rightarrow> bool" where
  "same_letter c d =
     (let m = (of_char c :: nat); n = (of_char d :: nat)
      in c = d \<or> (65 \<le> m \<and> m \<le> 90 \<and> n = m + 32) \<or> (65 \<le> n \<and> n \<le> 90 \<and> m = n + 32))"

fun occurs_ci :: "string \<Rightarrow> string \<Rightarrow> bool" where
  "occurs_ci term [] = (term = [])"
| "occurs_ci term (c # cs) =
     (list_all2 same_letter (take (length term) (c # cs)) term \<or> occurs_ci term cs)"

text \<open>The distinct elements of a list in the order of their first occurrence.\<close>

fun first_seen :: "'a list \<Rightarrow> 'a list" where
  "first_seen [] = []"
| "first_seen (x # xs) = x # removeAll x (first_seen xs)"

text \<open>
  The states of the dashboard that \<open>handleLogEntry\<close> keeps to: the ordered names are
  the keys of the pane map, each once, and every pane's buffer is well formed.
\<close>

definition app_inv :: "App \<Rightarrow> bool" where
  "app_inv a =
     (dom (panes a) = set (paneOrder a) \<and> distinct (paneOrder a) \<and>
      (\<forall>n p. panes a n = Some p \<longrightarrow> buffer_inv (buffer p)))"

text \<open>
  The JSON scenario of the specification: the line, the object \<open>json.Unmarshal\<close>
  decodes it into, the instant its \<open>ts\<close> field denotes (2024-01-01T00:00:00Z), and a
  standard library that decodes this line and parses this time stamp only and maps
  the case of ASCII letters.
\<close>

definition scenario_line :: string where
  \<open>scenario_line = ''{"level":"warn","msg":"cache miss","ts":"2024-01-01T00:00:00Z"}''\<close>

definition scenario_fields :: fields where
  "scenario_fields =
     [''level'' \<mapsto> VString ''warn'', ''msg'' \<mapsto> VString ''cache miss'',
      ''ts'' \<mapsto> VString ''2024-01-01T00:00:00Z'']"

definition scenario_time :: Time where
  "scenario_time = 1704067200 * 1000000000"

definition scenario_lib :: stdlib where
  "scenario_lib =
     \<lparr>time_Now = 0,
      json_Unmarshal = (\<lambda>s. if s = scenario_line then Some scenario_fields else None),
      time_Parse = (\<lambda>layout v.
        if layout = RFC3339 \<and> v = ''2024-01-01T00:00:00Z'' then Some scenario_time else None),
      timestampPattern_FindString = (\<lambda>s. []),
      strings_ToUpper = ascii_ToUpper,
      strings_ToLower = ascii_ToLower\<rparr>"

section \<open>Properties\<close>

subsection \<open>Reading the ring buffer\<close>

lemma length_go_copy: "length (go_copy dst src) = length dst"
  by (simp add: go_copy_def)

lemma length_contents: "buffer_inv b \<Longrightarrow> int (length (contents b)) = bcount b"
  by (auto simp: buffer_inv_def contents_def)

lemma stitch_segments:
  assumes "i \<le> n" and "length xs = n"
  shows "take (n - i) (go_copy (replicate n z) (drop i xs)) @
         go_copy (drop (n - i) (go_copy (replicate n z) (drop i xs))) (take i xs) =
         drop i xs @ take i xs"
proof -
  have r1: "go_copy (replicate n z) (drop i xs) = drop i xs @ replicate i z"
    using assms by (simp add: go_copy_def)
  have "take (n - i) (drop i xs @ replicate i z) = drop i xs"
    using assms by simp
  moreover have "go_copy (drop (n - i) (drop i xs @ replicate i z)) (take i xs) = take i xs"
    using assms by (simp add: go_copy_def)
  ultimately show ?thesis by (simp add: r1)
qed

lemma buffer_inv_nat:
  assumes "buffer_inv b"
  obtains n i c where "bsize b = int n" "bindex b = int i" "bcount b = int c"
    "0 < n" "length (entries b) = n" "i < n" "c \<le> n" "c < n \<longrightarrow> i = c"
proof -
  from assms have "bsize b = int (nat (bsize b))" "bindex b = int (nat (bindex b))"
    "bcount b = int (nat (bcount b))" "0 < nat (bsize b)"
    "length (entries b) = nat (bsize b)" "nat (bindex b) < nat (bsize b)"
    "nat (bcount b) \<le> nat (bsize b)"
    "nat (bcount b) < nat (bsize b) \<longrightarrow> nat (bindex b) = nat (bcount b)"
    unfolding buffer_inv_def by linarith+
  then show thesis by (rule that)
qed

lemma GetAll_contents:
  assumes "buffer_inv b"
  shows "GetAll b = Inr (contents b)"
proof -
  from assms obtain n i c where nat: "bsize b = int n" "bindex b = int i" "bcount b = int c"
    "0 < n" "length (entries b) = n" "i < n" "c \<le> n" "c < n \<longrightarrow> i = c"
    using buffer_inv_nat [of b thesis] by blast
  show ?thesis
  proof (cases "c < n")
    case True
    then have "go_copy (replicate c zeroLogEntry) (take c (entries b)) = take c (entries b)"
      using nat by (simp add: go_copy_def min_def)
    with True nat show ?thesis
      by (simp add: GetAll_def contents_def Let_def)
  next
    case False
    with nat have full: "c = n" by simp
    have k: "nat (int n - int i) = n - i" by simp
    have "i \<le> n" using nat by simp
    from stitch_segments [OF this nat(5), of zeroLogEntry] full nat show ?thesis
      by (simp add: GetAll_def contents_def Let_def length_go_copy k del: of_nat_diff)
  qed
qed

subsection \<open>Adding to the ring buffer\<close>

lemma smod_nat: "0 < n \<Longrightarrow> (int i + 1) smod int n = int (Suc i mod n)"
  by (simp add: signed_modulo_int_def zmod_int sgn_if add.commute)

lemma rotate_step:
  assumes "i < length xs"
  shows "drop (Suc i mod length xs) (xs[i := e]) @ take (Suc i mod length xs) (xs[i := e]) =
         tl (drop i xs @ take i xs) @ [e]"
proof (cases "Suc i < length xs")
  case True
  have "xs[i := e] = take i xs @ e # drop (Suc i) xs"
    using assms by (rule upd_conv_take_nth_drop)
  moreover have "drop i xs = xs ! i # drop (Suc i) xs"
    using assms by (simp add: Cons_nth_drop_Suc)
  ultimately show ?thesis using True assms
    by (simp add: take_Suc_conv_app_nth)
next
  case False
  with assms have last: "Suc i = length xs" by simp
  have "xs[i := e] = take i xs @ e # drop (Suc i) xs"
    using assms by (rule upd_conv_take_nth_drop)
  moreover have "drop i xs = xs ! i # drop (Suc i) xs"
    using assms by (simp add: Cons_nth_drop_Suc)
  ultimately show ?thesis using last by simp
qed

lemma fill_step:
  assumes "c < length xs"
  shows "(if Suc c < length xs then take (Suc c) (xs[c := e])
          else drop (Suc c mod length xs) (xs[c := e]) @ take (Suc c mod length xs) (xs[c := e])) =
         take c xs @ [e]"
proof -
  have "xs[c := e] = take c xs @ e # drop (Suc c) xs"
    using assms by (rule upd_conv_take_nth_drop)
  then show ?thesis using assms
    by (auto simp: take_Suc_conv_app_nth not_less le_Suc_eq)
qed

lemma Add_step:
  assumes "buffer_inv b"
  shows "\<exists>b'. Add b e = Inr b' \<and> buffer_inv b' \<and> bsize b' = bsize b \<and>
           contents b' = (if bcount b < bsize b then contents b @ [e]
                          else tl (contents b) @ [e])"
proof -
  from assms obtain n i c where nat: "bsize b = int n" "bindex b = int i" "bcount b = int c"
    "0 < n" "length (entries b) = n" "i < n" "c \<le> n" "c < n \<longrightarrow> i = c"
    using buffer_inv_nat [of b thesis] by blast
  let ?b' = "b\<lparr>entries := (entries b)[i := e], bindex := int (Suc i mod n),
                bcount := (if c < n then int c + 1 else int c)\<rparr>"
  have add: "Add b e = Inr ?b'"
    using nat by (simp add: Add_def smod_nat)
  have inv: "buffer_inv ?b'"
    using nat by (auto simp: buffer_inv_def mod_Suc)
  have cont: "contents ?b' = (if c < n then contents b @ [e] else tl (contents b) @ [e])"
  proof (cases "c < n")
    case True
    with nat have ic: "i = c" by simp
    from fill_step [of c "entries b" e] True nat ic show ?thesis
      by (simp add: contents_def del: of_nat_Suc) (auto simp: nat_add_distrib)
  next
    case False
    with nat have "c = n" by simp
    with rotate_step [of i "entries b" e] nat show ?thesis
      by (simp add: contents_def)
  qed
  from add inv cont nat show ?thesis by auto
qed

lemma add_all_contents:
  assumes "buffer_inv b"
  shows "\<exists>b'. add_all b es = Inr b' \<and> buffer_inv b' \<and> bsize b' = bsize b \<and>
           contents b' = drop (length (contents b @ es) - nat (bsize b)) (contents b @ es)"
  using assms
proof (induction es arbitrary: b)
  case Nil
  have "length (contents b) \<le> nat (bsize b)"
    using length_contents [OF Nil] Nil unfolding buffer_inv_def by linarith
  with Nil show ?case by simp
next
  case (Cons e es)
  from Add_step [OF Cons.prems, of e] obtain b1 where
    b1: "Add b e = Inr b1" "buffer_inv b1" "bsize b1 = bsize b"
      "contents b1 = (if bcount b < bsize b then contents b @ [e] else tl (contents b) @ [e])"
    by blast
  from Cons.IH [OF b1(2)] obtain b' where
    b': "add_all b1 es = Inr b'" "buffer_inv b'" "bsize b' = bsize b1"
      "contents b' = drop (length (contents b1 @ es) - nat (bsize b1)) (contents b1 @ es)"
    by blast
  have len: "int (length (contents b)) = bcount b" and le: "bcount b \<le> bsize b"
    and pos: "0 < bsize b"
    using length_contents [OF Cons.prems] Cons.prems by (simp_all add: buffer_inv_def)
  have "drop (length (contents b1 @ es) - nat (bsize b)) (contents b1 @ es) =
        drop (length (contents b @ e # es) - nat (bsize b)) (contents b @ e # es)"
  proof (cases "bcount b < bsize b")
    case True
    then show ?thesis by (simp add: b1(4))
  next
    case False
    with le have full: "bcount b = bsize b" by simp
    with len pos have n: "length (contents b) = nat (bsize b)" "contents b \<noteq> []"
      by auto
    then obtain x t where xt: "contents b = x # t" by (cases "contents b") auto
    with n have "length t = nat (bsize b) - 1" by simp
    with False xt n pos show ?thesis by (simp add: b1(4))
  qed
  with b1 b' show ?case by (simp add: bind_panic_def)
qed

lemma NewBuffer_inv:
  assumes "0 < N"
  shows "\<exists>b0. NewBuffer N = Inr b0 \<and> buffer_inv b0 \<and> bsize b0 = N \<and> contents b0 = []"
  using assms by (simp add: NewBuffer_def buffer_inv_def contents_def)

lemma NewBuffer_add_all_GetAll:
  assumes "0 < N"
  shows "\<exists>b0 b. NewBuffer N = Inr b0 \<and> add_all b0 es = Inr b \<and>
           GetAll b = Inr (drop (length es - nat N) es)"
proof -
  from NewBuffer_inv [OF assms] obtain b0 where
    b0: "NewBuffer N = Inr b0" "buffer_inv b0" "bsize b0 = N" "contents b0 = []"
    by blast
  from add_all_contents [OF b0(2), of es] obtain b where
    b: "add_all b0 es = Inr b" "buffer_inv b"
      "contents b = drop (length (contents b0 @ es) - nat (bsize b0)) (contents b0 @ es)"
    by blast
  from GetAll_contents [OF b(2)] b(3) b0 have "GetAll b = Inr (drop (length es - nat N) es)"
    by simp
  with b0(1) b(1) show ?thesis by blast
qed

text \<open>
  C1. A buffer created with capacity \<open>N > 0\<close> into which the entries \<open>es\<close> are added
  in order never panics, and \<open>GetAll\<close> then returns the last \<open>N\<close> entries of \<open>es\<close>
  (all of \<open>es\<close> when there are fewer than \<open>N\<close>), in insertion order, whether or not
  the backing slice has wrapped.
\<close>

theorem ring_buffer_keeps_last_N:
  assumes "0 < N"
  shows "\<exists>b0 b. NewBuffer N = Inr b0 \<and> add_all b0 es = Inr b \<and>
           GetAll b = Inr (drop (length es - nat N) es)"
  using assms by (rule NewBuffer_add_all_GetAll)

theorem ring_buffer_keeps_last_N_witness:
  "0 < (2::int) \<and>
   (\<exists>b0 b. NewBuffer 2 = Inr b0 \<and>
      add_all b0 [zeroLogEntry\<lparr>Content := ''ERROR: disk full''\<rparr>,
                  zeroLogEntry\<lparr>Content := ''INFO: started''\<rparr>,
                  zeroLogEntry\<lparr>Content := ''WARN: retrying''\<rparr>] = Inr b \<and>
      GetAll b = Inr [zeroLogEntry\<lparr>Content := ''INFO: started''\<rparr>,
                      zeroLogEntry\<lparr>Content := ''WARN: retrying''\<rparr>])"
  using ring_buffer_keeps_last_N [of 2 "[zeroLogEntry\<lparr>Content := ''ERROR: disk full''\<rparr>,
                  zeroLogEntry\<lparr>Content := ''INFO: started''\<rparr>,
                  zeroLogEntry\<lparr>Content := ''WARN: retrying''\<rparr>]"]
  by simp

subsection \<open>Case-insensitive containment\<close>

lemma of_char_upper_byte:
  "(of_char (upper_byte c) :: nat) =
     (if 97 \<le> (of_char c :: nat) \<and> (of_char c :: nat) \<le> 122 then of_char c - 32 else of_char c)"
  by (auto simp: upper_byte_def Let_def)



lemma same_letter_upper: "same_letter c d \<longleftrightarrow> upper_byte c = upper_byte d"
proof -
  have inj: "c = d \<longleftrightarrow> (of_char c :: nat) = of_char d"
    by simp
  have "upper_byte c = upper_byte d \<longleftrightarrow> (of_char (upper_byte c) :: nat) = of_char (upper_byte d)"
    by (simp only: of_char_eq_iff)
  also have "\<dots> \<longleftrightarrow> same_letter c d"
    unfolding of_char_upper_byte same_letter_def Let_def inj by arith
  finally show ?thesis by simp
qed

lemma Contains_sublist: "Contains s t \<longleftrightarrow> sublist t s"
  by (induction s) (simp_all add: sublist_Cons_right)

lemma occurs_ci_iff:
  "occurs_ci t s \<longleftrightarrow> (\<exists>ps mid ss. s = ps @ mid @ ss \<and> list_all2 same_letter mid t)"
proof (induction s)
  case Nil
  then show ?case by auto
next
  case (Cons c cs)
  have here: "list_all2 same_letter (take (length t) (c # cs)) t \<longleftrightarrow>
        (\<exists>mid ss. c # cs = mid @ ss \<and> list_all2 same_letter mid t)" (is "?L \<longleftrightarrow> ?R")
  proof
    assume ?L
    then have "c # cs = take (length t) (c # cs) @ drop (length t) (c # cs) \<and>
        list_all2 same_letter (take (length t) (c # cs)) t"
      by simp
    then show ?R by blast
  next
    assume ?R
    then obtain mid ss where m: "c # cs = mid @ ss" "list_all2 same_letter mid t" by blast
    then have "length mid = length t" by (simp add: list_all2_lengthD)
    with m show ?L by simp
  qed
  have split: "(\<exists>ps mid ss. c # cs = ps @ mid @ ss \<and> list_all2 same_letter mid t) \<longleftrightarrow>
        (\<exists>mid ss. c # cs = mid @ ss \<and> list_all2 same_letter mid t) \<or>
        (\<exists>ps mid ss. cs = ps @ mid @ ss \<and> list_all2 same_letter mid t)" (is "?A \<longleftrightarrow> ?B \<or> ?C")
  proof
    assume ?A
    then obtain ps mid ss where a: "c # cs = ps @ mid @ ss" "list_all2 same_letter mid t"
      by blast
    show "?B \<or> ?C"
    proof (cases ps)
      case Nil
      with a show ?thesis by auto
    next
      case (Cons p ps')
      with a have "cs = ps' @ mid @ ss" by simp
      with a show ?thesis by blast
    qed
  next
    assume "?B \<or> ?C"
    then show ?A
    proof
      assume ?B
      then obtain mid ss where "c # cs = [] @ mid @ ss" "list_all2 same_letter mid t" by auto
      then show ?A by blast
    next
      assume ?C
      then obtain ps mid ss where "c # cs = (c # ps) @ mid @ ss" "list_all2 same_letter mid t"
        by auto
      then show ?A by blast
    qed
  qed
  show ?case by (simp only: occurs_ci.simps here split Cons.IH)
qed


lemma list_all2_same_letter_upper:
  "list_all2 same_letter xs ys \<longleftrightarrow> map upper_byte xs = map upper_byte ys"
  by (auto simp: same_letter_upper list_all2_conv_all_nth list_eq_iff_nth_eq)

lemma sublist_map_iff:
  "sublist (map f t) (map f s) \<longleftrightarrow> (\<exists>ps mid ss. s = ps @ mid @ ss \<and> map f mid = map f t)"
proof
  assume "sublist (map f t) (map f s)"
  then obtain ps' ss' where "map f s = ps' @ map f t @ ss'" by (auto simp: sublist_def)
  then have "map f (take (length t) (drop (length ps') s)) = map f t"
    by (simp add: take_map [symmetric] drop_map [symmetric])
  moreover have "s = take (length ps') s @ take (length t) (drop (length ps') s) @
      drop (length t) (drop (length ps') s)"
    by (simp only: append_take_drop_id)
  ultimately show "\<exists>ps mid ss. s = ps @ mid @ ss \<and> map f mid = map f t" by blast
next
  assume "\<exists>ps mid ss. s = ps @ mid @ ss \<and> map f mid = map f t"
  then obtain ps mid ss where "s = ps @ mid @ ss" "map f mid = map f t" by blast
  then have "map f s = map f ps @ map f t @ map f ss" by simp
  then show "sublist (map f t) (map f s)" unfolding sublist_def by blast
qed


lemma Contains_ToUpper: "Contains (ascii_ToUpper s) (ascii_ToUpper t) \<longleftrightarrow> occurs_ci t s"
  by (simp add: Contains_sublist ascii_ToUpper_def sublist_map_iff occurs_ci_iff
      list_all2_same_letter_upper)

subsection \<open>The line classifier\<close>

lemma ToUpper_patterns:
  "ascii_ToUpper ''ERROR'' = ''ERROR''" "ascii_ToUpper ''ERR'' = ''ERR''"
  "ascii_ToUpper ''WARN'' = ''WARN''" "ascii_ToUpper ''WARNING'' = ''WARNING''"
  "ascii_ToUpper ''INFO'' = ''INFO''" "ascii_ToUpper ''INFORMATION'' = ''INFORMATION''"
  "ascii_ToUpper ''DEBUG'' = ''DEBUG''" "ascii_ToUpper ''DBG'' = ''DBG''"
  by (simp_all add: ascii_ToUpper_def upper_byte_def)

lemma Contains_upper_pattern:
  "ascii_ToUpper p = p \<Longrightarrow> Contains (ascii_ToUpper line) p \<longleftrightarrow> occurs_ci p line"
  using Contains_ToUpper [of line p] by simp

lemma ascii_ToUpper_lib:
  "ascii_case_mapping lib \<Longrightarrow> is_ascii s \<Longrightarrow> strings_ToUpper lib s = ascii_ToUpper s"
  by (simp add: ascii_case_mapping_def)



lemma ParseLevel_ascii:
  assumes "ascii_case_mapping lib" and "is_ascii line"
  shows "ParseLevel lib line =
     (if occurs_ci ''ERROR'' line \<or> occurs_ci ''ERR'' line then LogLevelError
      else if occurs_ci ''WARN'' line \<or> occurs_ci ''WARNING'' line then LogLevelWarn
      else if occurs_ci ''INFO'' line \<or> occurs_ci ''INFORMATION'' line then LogLevelInfo
      else if occurs_ci ''DEBUG'' line \<or> occurs_ci ''DBG'' line then LogLevelDebug
      else LogLevelInfo)"
  by (simp add: ParseLevel_def Let_def ascii_ToUpper_lib [OF assms] Contains_upper_pattern
      ToUpper_patterns)


lemma ascii_case_mapping_scenario_lib: "ascii_case_mapping scenario_lib"
  by (simp add: ascii_case_mapping_def scenario_lib_def)


subsection \<open>Filtering and searching the buffer\<close>

lemma Filter_eq:
  "GetAll b = Inr all \<Longrightarrow>
   Filter b l = Inr (filter (\<lambda>e. levelOrder l \<le> levelOrder (Level e)) all)"
  by (simp add: Filter_def bind_panic_def Let_def)

lemma levelOrder_values:
  "levelOrder LogLevelDebug = 0" "levelOrder LogLevelInfo = 1"
  "levelOrder LogLevelWarn = 2" "levelOrder LogLevelError = 3"
  by (simp_all add: levelOrder_def LogLevelDebug_def LogLevelInfo_def LogLevelWarn_def
      LogLevelError_def)

lemma levelOrder_nonneg: "0 \<le> levelOrder l"
  by (simp add: levelOrder_def)

lemma subseq_filter_mono:
  assumes "\<And>x. P x \<Longrightarrow> Q x"
  shows "subseq (filter P xs) (filter Q xs)"
proof -
  have "filter P xs = filter P (filter Q xs)"
    using assms by (auto intro: filter_cong)
  then show ?thesis by (metis subseq_filter_left)
qed

text \<open>
  C4. For every buffer state reached from \<open>NewBuffer N\<close> (\<open>N > 0\<close>) by adding the
  entries \<open>es\<close> in order: \<open>GetAll\<close> returns the last \<open>N\<close> entries of \<open>es\<close> in
  insertion order, the four filters return, the result for ERROR is a subsequence of
  the one for WARN, that one of the one for INFO, that one of the one for DEBUG, which
  is the result of \<open>GetAll\<close>; each result is those last \<open>N\<close> entries, in insertion
  order, whose rank is at least the rank of the floor, with the ranks DEBUG 0, INFO 1,
  WARN 2, ERROR 3.
\<close>

theorem Filter_monotonic:
  assumes "0 < N"
  shows "\<exists>b0 b fe fw fi fd.
           NewBuffer N = Inr b0 \<and> add_all b0 es = Inr b \<and>
           GetAll b = Inr (drop (length es - nat N) es) \<and>
           Filter b LogLevelError = Inr fe \<and> Filter b LogLevelWarn = Inr fw \<and>
           Filter b LogLevelInfo = Inr fi \<and> Filter b LogLevelDebug = Inr fd \<and>
           subseq fe fw \<and> subseq fw fi \<and> subseq fi fd \<and>
           fd = drop (length es - nat N) es \<and>
           fe = filter (\<lambda>e. 3 \<le> levelOrder (Level e)) (drop (length es - nat N) es) \<and>
           fw = filter (\<lambda>e. 2 \<le> levelOrder (Level e)) (drop (length es - nat N) es) \<and>
           fi = filter (\<lambda>e. 1 \<le> levelOrder (Level e)) (drop (length es - nat N) es) \<and>
           fd = filter (\<lambda>e. 0 \<le> levelOrder (Level e)) (drop (length es - nat N) es) \<and>
           levelOrder LogLevelDebug = 0 \<and> levelOrder LogLevelInfo = 1 \<and>
           levelOrder LogLevelWarn = 2 \<and> levelOrder LogLevelError = 3"
proof -
  let ?all = "drop (length es - nat N) es"
  from NewBuffer_add_all_GetAll [OF assms, of es] obtain b0 b where
    b: "NewBuffer N = Inr b0" "add_all b0 es = Inr b" "GetAll b = Inr ?all"
    by blast
  have "subseq (filter (\<lambda>e. 3 \<le> levelOrder (Level e)) ?all)
          (filter (\<lambda>e. 2 \<le> levelOrder (Level e)) ?all)"
    by (rule subseq_filter_mono) simp
  moreover have "subseq (filter (\<lambda>e. 2 \<le> levelOrder (Level e)) ?all)
          (filter (\<lambda>e. 1 \<le> levelOrder (Level e)) ?all)"
    by (rule subseq_filter_mono) simp
  moreover have "subseq (filter (\<lambda>e. 1 \<le> levelOrder (Level e)) ?all)
          (filter (\<lambda>e. 0 \<le> levelOrder (Level e)) ?all)"
    by (rule subseq_filter_mono) simp
  moreover have "filter (\<lambda>e. 0 \<le> levelOrder (Level e)) ?all = ?all"
    by (simp add: levelOrder_nonneg)
  ultimately have
    "Filter b LogLevelError = Inr (filter (\<lambda>e. 3 \<le> levelOrder (Level e)) ?all) \<and>
     Filter b LogLevelWarn = Inr (filter (\<lambda>e. 2 \<le> levelOrder (Level e)) ?all) \<and>
     Filter b LogLevelInfo = Inr (filter (\<lambda>e. 1 \<le> levelOrder (Level e)) ?all) \<and>
     Filter b LogLevelDebug = Inr ?all \<and>
     subseq (filter (\<lambda>e. 3 \<le> levelOrder (Level e)) ?all)
       (filter (\<lambda>e. 2 \<le> levelOrder (Level e)) ?all) \<and>
     subseq (filter (\<lambda>e. 2 \<le> levelOrder (Level e)) ?all)
       (filter (\<lambda>e. 1 \<le> levelOrder (Level e)) ?all) \<and>
     subseq (filter (\<lambda>e. 1 \<le> levelOrder (Level e)) ?all) ?all \<and>
     ?all = filter (\<lambda>e. 0 \<le> levelOrder (Level e)) ?all"
    using Filter_eq [OF b(3)] by (simp add: levelOrder_values)
  with b show ?thesis by (simp add: levelOrder_values)
qed

theorem Filter_monotonic_witness:
  "0 < (2::int) \<and>
   (\<exists>b0 b. NewBuffer 2 = Inr b0 \<and>
      add_all b0 [zeroLogEntry\<lparr>Level := LogLevelError, Content := ''ERROR: disk full''\<rparr>,
                  zeroLogEntry\<lparr>Level := LogLevelInfo, Content := ''INFO: started''\<rparr>,
                  zeroLogEntry\<lparr>Level := LogLevelWarn, Content := ''WARN: retrying''\<rparr>] = Inr b \<and>
      GetAll b = Inr [zeroLogEntry\<lparr>Level := LogLevelInfo, Content := ''INFO: started''\<rparr>,
                      zeroLogEntry\<lparr>Level := LogLevelWarn, Content := ''WARN: retrying''\<rparr>] \<and>
      Filter b LogLevelError = Inr [] \<and>
      Filter b LogLevelWarn =
        Inr [zeroLogEntry\<lparr>Level := LogLevelWarn, Content := ''WARN: retrying''\<rparr>] \<and>
      Filter b LogLevelInfo =
        Inr [zeroLogEntry\<lparr>Level := LogLevelInfo, Content := ''INFO: started''\<rparr>,
             zeroLogEntry\<lparr>Level := LogLevelWarn, Content := ''WARN: retrying''\<rparr>] \<and>
      Filter b LogLevelDebug =
        Inr [zeroLogEntry\<lparr>Level := LogLevelInfo, Content := ''INFO: started''\<rparr>,
             zeroLogEntry\<lparr>Level := LogLevelWarn, Content := ''WARN: retrying''\<rparr>])"
proof -
  let ?A = "zeroLogEntry\<lparr>Level := LogLevelError, Content := ''ERROR: disk full''\<rparr>"
  let ?B = "zeroLogEntry\<lparr>Level := LogLevelInfo, Content := ''INFO: started''\<rparr>"
  let ?C = "zeroLogEntry\<lparr>Level := LogLevelWarn, Content := ''WARN: retrying''\<rparr>"
  have h: "0 < (2::int)" by simp
  have d: "drop (length [?A, ?B, ?C] - nat 2) [?A, ?B, ?C] = [?B, ?C]" by simp
  from Filter_monotonic [OF h, of "[?A, ?B, ?C]"] obtain b0 b where
    "NewBuffer 2 = Inr b0" "add_all b0 [?A, ?B, ?C] = Inr b"
    "GetAll b = Inr [?B, ?C]"
    "Filter b LogLevelError = Inr (filter (\<lambda>e. 3 \<le> levelOrder (Level e)) [?B, ?C])"
    "Filter b LogLevelWarn = Inr (filter (\<lambda>e. 2 \<le> levelOrder (Level e)) [?B, ?C])"
    "Filter b LogLevelInfo = Inr (filter (\<lambda>e. 1 \<le> levelOrder (Level e)) [?B, ?C])"
    "Filter b LogLevelDebug = Inr [?B, ?C]"
    unfolding d by blast
  then show ?thesis using h by (auto simp: levelOrder_values)
qed

text \<open>
  C10. A level that is none of the four has rank 0, as an entry's level and as the
  floor: \<open>Filter\<close> with such a floor returns every entry, and an entry with such a
  level is in the result for DEBUG and in none of the results for INFO, WARN, ERROR.
\<close>

theorem Filter_unknown_level:
  assumes "GetAll b = Inr all"
    and "m \<notin> {LogLevelDebug, LogLevelInfo, LogLevelWarn, LogLevelError}"
    and "e \<in> set all"
    and "Level e \<notin> {LogLevelDebug, LogLevelInfo, LogLevelWarn, LogLevelError}"
  shows "levelOrder m = 0 \<and> levelOrder (Level e) = 0 \<and>
         Filter b m = Inr all \<and>
         (\<exists>fd. Filter b LogLevelDebug = Inr fd \<and> e \<in> set fd) \<and>
         (\<exists>fi. Filter b LogLevelInfo = Inr fi \<and> e \<notin> set fi) \<and>
         (\<exists>fw. Filter b LogLevelWarn = Inr fw \<and> e \<notin> set fw) \<and>
         (\<exists>fe. Filter b LogLevelError = Inr fe \<and> e \<notin> set fe)"
proof -
  have m: "levelOrder m = 0" and l: "levelOrder (Level e) = 0"
    using assms(2,4) by (simp_all add: levelOrder_def)
  have all: "filter (\<lambda>e. 0 \<le> levelOrder (Level e)) all = all"
    by (simp add: levelOrder_nonneg)
  show ?thesis
    using assms(3) by (simp add: Filter_eq [OF assms(1)] levelOrder_values m l all)
qed

theorem Filter_unknown_level_witness:
  "GetAll \<lparr>entries = [zeroLogEntry\<lparr>Level := ''TRACE''\<rparr>], bsize = 1, bindex = 0, bcount = 1\<rparr>
     = Inr [zeroLogEntry\<lparr>Level := ''TRACE''\<rparr>] \<and>
   ''VERBOSE'' \<notin> {LogLevelDebug, LogLevelInfo, LogLevelWarn, LogLevelError} \<and>
   zeroLogEntry\<lparr>Level := ''TRACE''\<rparr> \<in> set [zeroLogEntry\<lparr>Level := ''TRACE''\<rparr>] \<and>
   Level (zeroLogEntry\<lparr>Level := ''TRACE''\<rparr>)
     \<notin> {LogLevelDebug, LogLevelInfo, LogLevelWarn, LogLevelError} \<and>
   Filter \<lparr>entries = [zeroLogEntry\<lparr>Level := ''TRACE''\<rparr>], bsize = 1, bindex = 0, bcount = 1\<rparr>
     ''VERBOSE'' = Inr [zeroLogEntry\<lparr>Level := ''TRACE''\<rparr>] \<and>
   Filter \<lparr>entries = [zeroLogEntry\<lparr>Level := ''TRACE''\<rparr>], bsize = 1, bindex = 0, bcount = 1\<rparr>
     LogLevelDebug = Inr [zeroLogEntry\<lparr>Level := ''TRACE''\<rparr>] \<and>
   Filter \<lparr>entries = [zeroLogEntry\<lparr>Level := ''TRACE''\<rparr>], bsize = 1, bindex = 0, bcount = 1\<rparr>
     LogLevelInfo = Inr []"
proof -
  let ?e = "zeroLogEntry\<lparr>Level := ''TRACE''\<rparr>"
  let ?b = "\<lparr>entries = [?e], bsize = 1, bindex = 0, bcount = 1\<rparr>"
  have g: "GetAll ?b = Inr [?e]"
    by (simp add: GetAll_def Let_def go_copy_def)
  have m: "''VERBOSE'' \<notin> {LogLevelDebug, LogLevelInfo, LogLevelWarn, LogLevelError}"
    by (simp add: LogLevelDebug_def LogLevelInfo_def LogLevelWarn_def LogLevelError_def)
  have i: "?e \<in> set [?e]" by simp
  have l: "Level ?e \<notin> {LogLevelDebug, LogLevelInfo, LogLevelWarn, LogLevelError}"
    by (simp add: LogLevelDebug_def LogLevelInfo_def LogLevelWarn_def LogLevelError_def)
  from Filter_unknown_level [OF g m i l] have
    "Filter ?b ''VERBOSE'' = Inr [?e]"
    "\<exists>fd. Filter ?b LogLevelDebug = Inr fd \<and> ?e \<in> set fd"
    "\<exists>fi. Filter ?b LogLevelInfo = Inr fi \<and> ?e \<notin> set fi"
    by blast+
  moreover have lo: "levelOrder ''TRACE'' = 0"
    by (simp add: levelOrder_def LogLevelDebug_def LogLevelInfo_def LogLevelWarn_def
        LogLevelError_def)
  have "Filter ?b LogLevelDebug = Inr [?e]" "Filter ?b LogLevelInfo = Inr []"
    by (simp_all add: Filter_eq [OF g] levelOrder_values lo)
  ultimately show ?thesis using g m i l by blast
qed


lemma occurs_ci_empty: "occurs_ci [] s"
  by (cases s) simp_all





subsection \<open>The entry handler of the dashboard\<close>

lemma set_first_seen: "set (first_seen xs) = set xs"
  by (induction xs) auto

lemma distinct_first_seen: "distinct (first_seen xs)"
  by (induction xs) (auto simp: distinct_removeAll)

lemma NewPane_1000:
  "\<exists>p. NewPane nm 1000 = Inr p \<and> buffer_inv (buffer p) \<and> GetAll (buffer p) = Inr []"
  by (simp add: NewPane_def NewBuffer_def bind_panic_def buffer_inv_def GetAll_def)

lemma AddEntry_inv:
  assumes "buffer_inv (buffer p)"
  shows "\<exists>p'. AddEntry p e = Inr p' \<and> buffer_inv (buffer p')"
  using Add_step [OF assms, of e] by (auto simp: AddEntry_def bind_panic_def)

lemma LogEntry_rebuild:
  "\<lparr>Timestamp = Timestamp e, Source = Source e, Level = Level e, Content = Content e,
     Raw = Raw e, Metadata = Metadata e\<rparr> = (e :: LogEntry)"
  by (cases e) simp

lemma app_inv_update:
  assumes "app_inv a" and "buffer_inv (buffer p')" and "s \<in> set (paneOrder a)"
  shows "app_inv (a\<lparr>panes := (panes a)(s \<mapsto> p')\<rparr>)"
proof -
  have "dom ((panes a)(s \<mapsto> p')) = set (paneOrder a)"
    using assms(1,3) by (auto simp: app_inv_def)
  moreover have "\<forall>n p. ((panes a)(s \<mapsto> p')) n = Some p \<longrightarrow> buffer_inv (buffer p)"
    using assms(1,2) by (simp add: app_inv_def)
  ultimately show ?thesis using assms(1) by (simp add: app_inv_def)
qed

lemma handleLogEntry_step:
  assumes "app_inv a"
  shows "\<exists>a'. handleLogEntry a e = Inr a' \<and> app_inv a' \<and> paused a' = paused a \<and>
           paneOrder a' = (if Source e \<in> set (paneOrder a) then paneOrder a
                           else paneOrder a @ [Source e])"
proof (cases "panes a (Source e)")
  case None
  then have new: "Source e \<notin> set (paneOrder a)"
    using assms by (auto simp: app_inv_def)
  obtain p where p: "NewPane (Source e) 1000 = Inr p" "buffer_inv (buffer p)"
    using NewPane_1000 by blast
  let ?a1 = "a\<lparr>panes := (panes a)(Source e \<mapsto> p), paneOrder := paneOrder a @ [Source e]\<rparr>"
  have inv1: "app_inv ?a1"
    using assms new p(2) by (auto simp: app_inv_def)
  show ?thesis
  proof (cases "paused a")
    case True
    with None p inv1 new show ?thesis
      by (simp add: handleLogEntry_def bind_panic_def updateLayout_def LogEntry_rebuild)
  next
    case False
    obtain p' where p': "AddEntry p e = Inr p'" "buffer_inv (buffer p')"
      using AddEntry_inv [OF p(2)] by blast
    have "app_inv (?a1\<lparr>panes := (panes ?a1)(Source e \<mapsto> p')\<rparr>)"
      using inv1 p'(2) by (intro app_inv_update) simp_all
    with None p p' False new show ?thesis
      by (simp add: handleLogEntry_def bind_panic_def updateLayout_def LogEntry_rebuild)
  qed
next
  case (Some p)
  then have old: "Source e \<in> set (paneOrder a)" and pinv: "buffer_inv (buffer p)"
    using assms by (auto simp: app_inv_def)
  show ?thesis
  proof (cases "paused a")
    case True
    with Some assms old show ?thesis
      by (simp add: handleLogEntry_def bind_panic_def LogEntry_rebuild)
  next
    case False
    obtain p' where p': "AddEntry p e = Inr p'" "buffer_inv (buffer p')"
      using AddEntry_inv [OF pinv] by blast
    have "app_inv (a\<lparr>panes := (panes a)(Source e \<mapsto> p')\<rparr>)"
      using assms p'(2) old by (rule app_inv_update)
    with Some p' False old show ?thesis
      by (simp add: handleLogEntry_def bind_panic_def LogEntry_rebuild)
  qed
qed

lemma handleLogEntries_order:
  assumes "app_inv a"
  shows "\<exists>a'. handleLogEntries a es = Inr a' \<and> app_inv a' \<and>
           paneOrder a' =
             paneOrder a @ filter (\<lambda>s. s \<notin> set (paneOrder a)) (first_seen (map Source es))"
  using assms
proof (induction es arbitrary: a)
  case Nil
  then show ?case by simp
next
  case (Cons e es)
  from handleLogEntry_step [OF Cons.prems, of e] obtain a1 where
    a1: "handleLogEntry a e = Inr a1" "app_inv a1"
      "paneOrder a1 = (if Source e \<in> set (paneOrder a) then paneOrder a
                       else paneOrder a @ [Source e])"
    by blast
  from Cons.IH [OF a1(2)] obtain a' where
    a': "handleLogEntries a1 es = Inr a'" "app_inv a'"
      "paneOrder a' =
         paneOrder a1 @ filter (\<lambda>s. s \<notin> set (paneOrder a1)) (first_seen (map Source es))"
    by blast
  have "paneOrder a1 @ filter (\<lambda>s. s \<notin> set (paneOrder a1)) (first_seen (map Source es)) =
        paneOrder a @ filter (\<lambda>s. s \<notin> set (paneOrder a))
          (Source e # removeAll (Source e) (first_seen (map Source es)))"
  proof (cases "Source e \<in> set (paneOrder a)")
    case True
    then have "filter (\<lambda>s. s \<notin> set (paneOrder a))
                 (removeAll (Source e) (first_seen (map Source es))) =
               filter (\<lambda>s. s \<notin> set (paneOrder a)) (first_seen (map Source es))"
      by (auto simp: removeAll_filter_not_eq intro: filter_cong)
    with True a1(3) show ?thesis by simp
  next
    case False
    have "filter (\<lambda>s. s \<noteq> Source e \<and> s \<notin> set (paneOrder a)) (first_seen (map Source es)) =
          filter (\<lambda>s. s \<notin> set (paneOrder a))
            (removeAll (Source e) (first_seen (map Source es)))"
      by (auto simp: removeAll_filter_not_eq intro: filter_cong)
    with False a1(3) show ?thesis by simp
  qed
  with a1 a' show ?case by (simp add: bind_panic_def)
qed

text \<open>
  C3. Handling any sequence of entries from the initial dashboard, paused or not,
  never panics; afterwards the ordered pane list is the source names in the order in
  which each was first seen, without repetition, and the pane map has exactly one pane
  for each source name that occurred.
\<close>

theorem pane_creation_first_seen_order:
  "\<exists>a. handleLogEntries (NewApp\<lparr>paused := pz\<rparr>) es = Inr a \<and>
        paneOrder a = first_seen (map Source es) \<and>
        distinct (paneOrder a) \<and>
        dom (panes a) = set (map Source es) \<and>
        length (paneOrder a) = card (set (map Source es))"
proof -
  have inv0: "app_inv (NewApp\<lparr>paused := pz\<rparr>)"
    by (simp add: app_inv_def NewApp_def)
  from handleLogEntries_order [OF inv0, of es] obtain a where
    a: "handleLogEntries (NewApp\<lparr>paused := pz\<rparr>) es = Inr a" "app_inv a"
      "paneOrder a = first_seen (map Source es)"
    by (auto simp: NewApp_def)
  have d: "distinct (paneOrder a)" and dm: "dom (panes a) = set (map Source es)"
    using a(2,3) by (simp_all add: app_inv_def set_first_seen)
  have "length (paneOrder a) = card (set (paneOrder a))"
    using d by (simp add: distinct_card)
  with a d dm show ?thesis by (simp add: set_first_seen)
qed

lemma first_seen_example: "first_seen [''web'', ''api'', ''web'', ''db'', ''api''] = [''web'', ''api'', ''db'']"
  by simp

text \<open>
  C9. While the dashboard is paused, handling an entry leaves every existing pane as it
  was; when the entry's source already has a pane the whole state is unchanged, and
  when it has none a fresh pane with an empty buffer is stored under the source name
  and the name is appended to the pane order.
\<close>

theorem paused_entry_discarded_pane_created:
  assumes "paused a"
  shows "\<exists>a'. handleLogEntry a e = Inr a' \<and>
           (\<forall>n p. panes a n = Some p \<longrightarrow> panes a' n = Some p) \<and>
           (Source e \<in> dom (panes a) \<longrightarrow> a' = a) \<and>
           (Source e \<notin> dom (panes a) \<longrightarrow>
              paneOrder a' = paneOrder a @ [Source e] \<and>
              (\<exists>p. NewPane (Source e) 1000 = Inr p \<and> GetAll (buffer p) = Inr [] \<and>
                   panes a' = (panes a)(Source e \<mapsto> p)))"
proof (cases "panes a (Source e)")
  case None
  obtain p where p: "NewPane (Source e) 1000 = Inr p" "GetAll (buffer p) = Inr []"
    using NewPane_1000 by blast
  with None assms show ?thesis
    by (auto simp: handleLogEntry_def bind_panic_def updateLayout_def)
next
  case (Some p)
  with assms show ?thesis
    by (auto simp: handleLogEntry_def bind_panic_def)
qed

theorem paused_entry_discarded_pane_created_witness:
  "paused (NewApp\<lparr>paused := True\<rparr>) \<and>
   (\<exists>a'. handleLogEntry (NewApp\<lparr>paused := True\<rparr>) (zeroLogEntry\<lparr>Source := ''api''\<rparr>) = Inr a' \<and>
      paneOrder a' = [''api''] \<and>
      (\<exists>p. NewPane ''api'' 1000 = Inr p \<and> GetAll (buffer p) = Inr [] \<and>
           panes a' = [''api'' \<mapsto> p]))"
proof -
  have h: "paused (NewApp\<lparr>paused := True\<rparr>)" by simp
  have s: "Source (zeroLogEntry\<lparr>Source := ''api''\<rparr>) = ''api''" by simp
  have d: "''api'' \<notin> dom (panes (NewApp\<lparr>paused := True\<rparr>))"
    by (simp add: NewApp_def)
  have po: "paneOrder (NewApp\<lparr>paused := True\<rparr>) = []"
    and pn: "panes (NewApp\<lparr>paused := True\<rparr>) = Map.empty"
    by (simp_all add: NewApp_def)
  from paused_entry_discarded_pane_created [OF h, of "zeroLogEntry\<lparr>Source := ''api''\<rparr>"]
  show ?thesis unfolding s using d h by (simp add: po pn)
qed

subsection \<open>The server queue\<close>

text \<open>
  C2. The queue that \<open>NewServer\<close> creates has capacity 1000 and starts empty. A log
  message that arrives while the queue holds 1000 entries leaves the server state as
  it was: the new entry is dropped and the queued ones are kept. With fewer than 1000
  queued the entry is appended at the back. The handler returns in both cases.
\<close>

theorem full_queue_drops_new_entry:
  assumes "NewServer mkdir_ok listen_ok = Inr s0"
    and "chan_cap (logChan s) = chan_cap (logChan s0)"
  shows "chan_cap (logChan s0) = 1000 \<and> chan_buf (logChan s0) = [] \<and>
         (length (chan_buf (logChan s)) = 1000 \<longrightarrow>
            handleMessage s \<lparr>msgType = MessageTypeLog, msgLogEntry = Some entry,
                             msgSourceInfo = None, msgError = []\<rparr> = s) \<and>
         (length (chan_buf (logChan s)) < 1000 \<longrightarrow>
            handleMessage s \<lparr>msgType = MessageTypeLog, msgLogEntry = Some entry,
                             msgSourceInfo = None, msgError = []\<rparr> =
              s\<lparr>logChan := (logChan s)\<lparr>chan_buf := chan_buf (logChan s) @ [entry]\<rparr>\<rparr>)"
proof -
  from assms(1) have s0: "s0 = \<lparr>logChan = make_chan 1000\<rparr>"
    by (auto simp: NewServer_def split: if_splits)
  then have cap: "chan_cap (logChan s) = 1000"
    using assms(2) by (simp add: make_chan_def)
  show ?thesis
    using cap by (simp add: s0 make_chan_def handleMessage_def try_send_def)
qed

theorem full_queue_drops_new_entry_witness:
  "NewServer True True = Inr \<lparr>logChan = make_chan 1000\<rparr> \<and>
   chan_cap (logChan \<lparr>logChan = \<lparr>chan_buf = replicate 1000 zeroLogEntry, chan_cap = 1000\<rparr>\<rparr>) =
     chan_cap (logChan \<lparr>logChan = make_chan 1000\<rparr>) \<and>
   length (chan_buf (logChan
     \<lparr>logChan = \<lparr>chan_buf = replicate 1000 zeroLogEntry, chan_cap = 1000\<rparr>\<rparr>)) = 1000 \<and>
   handleMessage \<lparr>logChan = \<lparr>chan_buf = replicate 1000 zeroLogEntry, chan_cap = 1000\<rparr>\<rparr>
     \<lparr>msgType = MessageTypeLog, msgLogEntry = Some (zeroLogEntry\<lparr>Content := ''late''\<rparr>),
       msgSourceInfo = None, msgError = []\<rparr> =
     \<lparr>logChan = \<lparr>chan_buf = replicate 1000 zeroLogEntry, chan_cap = 1000\<rparr>\<rparr>"
proof -
  let ?s = "\<lparr>logChan = \<lparr>chan_buf = replicate 1000 zeroLogEntry, chan_cap = 1000\<rparr>\<rparr>"
  have n: "NewServer True True = Inr \<lparr>logChan = make_chan 1000\<rparr>"
    by (simp add: NewServer_def)
  have c: "chan_cap (logChan ?s) = chan_cap (logChan \<lparr>logChan = make_chan 1000\<rparr>)"
    by (simp add: make_chan_def)
  have l: "length (chan_buf (logChan ?s)) = 1000" by simp
  from full_queue_drops_new_entry [OF n c, of "zeroLogEntry\<lparr>Content := ''late''\<rparr>"] l
  have "handleMessage ?s
     \<lparr>msgType = MessageTypeLog, msgLogEntry = Some (zeroLogEntry\<lparr>Content := ''late''\<rparr>),
       msgSourceInfo = None, msgError = []\<rparr> = ?s"
    by blast
  with n c l show ?thesis by blast
qed

subsection \<open>Key presses in search mode\<close>

text \<open>
  C6. In search mode (local or global) a key that is none of enter, esc, backspace and
  is not a single byte leaves the dashboard state unchanged; the command returned is
  nil, except for ctrl+c, which returns the quit command with the state unchanged.
\<close>

theorem search_mode_suppresses_other_keys:
  assumes "searchMode a \<noteq> SearchNone"
    and "key \<notin> {''enter'', ''esc'', ''backspace''}"
    and "length key \<noteq> 1"
  shows "handleKeyPress a key = Inr (a, if key = ''ctrl+c'' then CmdQuit else CmdNil)"
proof -
  have "key \<noteq> ''q''" using assms(3) by auto
  with assms show ?thesis
    by (simp add: handleKeyPress_def handleSearchInput_def)
qed

theorem search_mode_suppresses_other_keys_witness:
  "searchMode (NewApp\<lparr>searchMode := SearchLocal, searchQuery := ''err''\<rparr>) \<noteq> SearchNone \<and>
   ''tab'' \<notin> {''enter'', ''esc'', ''backspace''} \<and> length ''tab'' \<noteq> 1 \<and>
   handleKeyPress (NewApp\<lparr>searchMode := SearchLocal, searchQuery := ''err''\<rparr>) ''tab'' =
     Inr (NewApp\<lparr>searchMode := SearchLocal, searchQuery := ''err''\<rparr>, CmdNil)"
proof -
  have m: "searchMode (NewApp\<lparr>searchMode := SearchLocal, searchQuery := ''err''\<rparr>) \<noteq> SearchNone"
    by simp
  have k: "''tab'' \<notin> {''enter'', ''esc'', ''backspace''}" by simp
  have l: "length ''tab'' \<noteq> 1" by simp
  from search_mode_suppresses_other_keys [OF m k l] m k l show ?thesis by simp
qed

subsection \<open>The JSON scenario\<close>

lemma is_ascii_scenario_line: "is_ascii scenario_line"
  by code_simp

lemma scan_scenario:
  "\<not> occurs_ci ''ERROR'' scenario_line \<and> \<not> occurs_ci ''ERR'' scenario_line \<and>
   occurs_ci ''WARN'' scenario_line"
  by code_simp

lemma ParseLevel_scenario:
  "ascii_case_mapping lib \<Longrightarrow> ParseLevel lib scenario_line = LogLevelWarn"
  using scan_scenario by (simp add: ParseLevel_ascii is_ascii_scenario_line)

lemma HasPrefix_scenario: "HasPrefix (TrimSpace scenario_line) ''{''"
  by code_simp

lemma normalize_scenario:
  assumes "time_Parse lib RFC3339 ''2024-01-01T00:00:00Z'' = Some t"
  shows "normalizeJSONFields lib scenario_fields =
           scenario_fields(''timestamp'' \<mapsto> VTime t, ''message'' \<mapsto> VString ''cache miss'',
             ''level'' \<mapsto> VString ''warn'')"
  using assms
  by (simp add: normalizeJSONFields_def scenario_fields_def timestampFields_def formats_def
      messageFields_def levelFields_def Let_def map_add_def fun_eq_iff)

lemma ParseStructured_scenario:
  assumes "json_Unmarshal lib scenario_line = Some scenario_fields"
    and "time_Parse lib RFC3339 ''2024-01-01T00:00:00Z'' = Some t"
  shows "ParseStructured lib scenario_line =
           Some (scenario_fields(''timestamp'' \<mapsto> VTime t,
             ''message'' \<mapsto> VString ''cache miss'', ''level'' \<mapsto> VString ''warn''))"
  using assms(1) HasPrefix_scenario
  by (simp add: ParseStructured_def normalize_scenario [OF assms(2)])

text \<open>
  C5. For the JSON line of the scenario, decoded by \<open>json.Unmarshal\<close> into its three
  fields, with a \<open>ts\<close> value that parses as RFC 3339 and with Go's case mapping of
  ASCII text, \<open>NewLogEntry\<close> gives level
  WARN, content "cache miss" and the parsed time stamp; the metadata has no \<open>level\<close>
  entry, but it does keep the alias keys \<open>msg\<close> and \<open>ts\<close> with their values.
\<close>

theorem json_alias_keys_stay_in_metadata:
  assumes "json_Unmarshal lib scenario_line = Some scenario_fields"
    and "time_Parse lib RFC3339 ''2024-01-01T00:00:00Z'' = Some t"
    and "ascii_case_mapping lib"
  shows "Level (NewLogEntry lib src scenario_line) = LogLevelWarn \<and>
         Content (NewLogEntry lib src scenario_line) = ''cache miss'' \<and>
         Timestamp (NewLogEntry lib src scenario_line) = t \<and>
         Metadata (NewLogEntry lib src scenario_line) ''level'' = None \<and>
         Metadata (NewLogEntry lib src scenario_line) ''msg'' = Some (VString ''cache miss'') \<and>
         Metadata (NewLogEntry lib src scenario_line) ''ts'' =
           Some (VString ''2024-01-01T00:00:00Z'')"
  by (simp add: NewLogEntry_def ParseStructured_scenario [OF assms(1,2)]
      ParseLevel_scenario [OF assms(3)] Let_def scenario_fields_def restrict_map_def map_add_def)

theorem json_alias_keys_stay_in_metadata_witness:
  "json_Unmarshal scenario_lib scenario_line = Some scenario_fields \<and>
   time_Parse scenario_lib RFC3339 ''2024-01-01T00:00:00Z'' = Some scenario_time \<and>
   ascii_case_mapping scenario_lib \<and>
   Level (NewLogEntry scenario_lib ''backend'' scenario_line) = LogLevelWarn \<and>
   Content (NewLogEntry scenario_lib ''backend'' scenario_line) = ''cache miss'' \<and>
   Timestamp (NewLogEntry scenario_lib ''backend'' scenario_line) = scenario_time \<and>
   Metadata (NewLogEntry scenario_lib ''backend'' scenario_line) ''level'' = None \<and>
   Metadata (NewLogEntry scenario_lib ''backend'' scenario_line) ''msg'' =
     Some (VString ''cache miss'') \<and>
   Metadata (NewLogEntry scenario_lib ''backend'' scenario_line) ''ts'' =
     Some (VString ''2024-01-01T00:00:00Z'')"
proof -
  have u: "json_Unmarshal scenario_lib scenario_line = Some scenario_fields"
    by (simp add: scenario_lib_def)
  have p: "time_Parse scenario_lib RFC3339 ''2024-01-01T00:00:00Z'' = Some scenario_time"
    by (simp add: scenario_lib_def)
  from json_alias_keys_stay_in_metadata [OF u p ascii_case_mapping_scenario_lib, of "''backend''"]
    u p ascii_case_mapping_scenario_lib show ?thesis
    by blast
qed

end
